theory Spec2Isabelle
  imports Complex_Main "HOL-Library.Extended_Nat"
begin

section \<open>A ring-oscillator TRNG simulated with simpy: the model\<close>

text \<open>
  The program is \<^verbatim>\<open>src/simpy_simulation.py\<close>. Its classes become records, every
  generator (\<^verbatim>\<open>run\<close>) becomes a function from the value the generator is resumed with
  to the updated objects, and every \<^verbatim>\<open>raise\<close> becomes the left injection of a sum.
  Simulated time and the running mean are Python floats; the model computes with them
  over the reals, so rounding and overflow of IEEE doubles are outside of it.
  Values read "live" from another object (\<^verbatim>\<open>self.i_data.state\<close>, \<^verbatim>\<open>self.i_rst.state\<close>,
  \<^verbatim>\<open>self.i_Q.state\<close>) are arguments of the reading function: the value the attribute
  has at the moment the line runs.
\<close>

subsection \<open>Errors\<close>

datatype error =
    RuntimeError string     \<comment> \<open>\<^verbatim>\<open>raise RuntimeError("There are no output pipes.")\<close>\<close>
  | InvalidDelay real       \<comment> \<open>a negative delay given to the scheduler's timed wait\<close>
  | ZeroDivisionError       \<comment> \<open>Python's float division by zero\<close>

subsection \<open>The simulation engine used by the program\<close>

text \<open>
  Modelled from the spec: the timed wait \<^verbatim>\<open>env.timeout(delay)\<close> of the scheduler
  (section 4.1: "Delay values must be \<ge> 0; a negative delay is a programming error
  (fails with InvalidDelay)"). The engine is the simpy library and is not under src/.
  The result is the simulated time at which the waiting process is resumed.
\<close>

definition timeout :: "real \<Rightarrow> real \<Rightarrow> error + real" where
  "timeout now delay = (if delay < 0 then Inl (InvalidDelay delay) else Inr (now + delay))"

text \<open>
  Modelled from the spec: the Mailbox \<^verbatim>\<open>simpy.Store\<close> (section 4.2), a FIFO with an
  optional capacity (\<open>\<infinity>\<close> is \<^verbatim>\<open>simpy.core.Infinity\<close>, the default). A put that finds
  the mailbox full stays pending in \<open>put_queue\<close> until a get frees a place; a get on an
  empty mailbox suspends the caller (\<open>None\<close>).
\<close>

record 'a store =
  store_capacity :: enat
  items :: "'a list"
  put_queue :: "'a list"

definition Store :: "enat \<Rightarrow> 'a store" where
  "Store cap = \<lparr>store_capacity = cap, items = [], put_queue = []\<rparr>"

fun trigger_put :: "enat \<Rightarrow> 'a list \<Rightarrow> 'a list \<Rightarrow> 'a list \<times> 'a list" where
  "trigger_put cap its [] = (its, [])"
| "trigger_put cap its (p # ps) =
     (if enat (length its) < cap then trigger_put cap (its @ [p]) ps else (its, p # ps))"

definition store_put :: "'a \<Rightarrow> 'a store \<Rightarrow> 'a store" where
  "store_put v s =
     (case trigger_put (store_capacity s) (items s) (put_queue s @ [v]) of
        (its, q) \<Rightarrow> s\<lparr>items := its, put_queue := q\<rparr>)"

definition store_get :: "'a store \<Rightarrow> ('a \<times> 'a store) option" where
  "store_get s =
     (case items s of
        [] \<Rightarrow> None
      | x # xs \<Rightarrow>
          (case trigger_put (store_capacity s) xs (put_queue s) of
             (its, q) \<Rightarrow> Some (x, s\<lparr>items := its, put_queue := q\<rparr>)))"

subsection \<open>BroadcastPipe\<close>

text \<open>
  \<^verbatim>\<open>put\<close> returns the condition event \<^verbatim>\<open>env.all_of(events)\<close>; no caller in the program
  waits for it, so the model returns the pipe with its mailboxes updated.
\<close>

record 'a broadcast_pipe =
  capacity :: enat
  pipes :: "'a store list"

definition BroadcastPipe :: "enat \<Rightarrow> 'a broadcast_pipe" where
  "BroadcastPipe cap = \<lparr>capacity = cap, pipes = []\<rparr>"

definition put :: "'a \<Rightarrow> 'a broadcast_pipe \<Rightarrow> error + 'a broadcast_pipe" where
  "put v bp =
     (if pipes bp = [] then Inl (RuntimeError ''There are no output pipes.'')
      else Inr (bp\<lparr>pipes := map (store_put v) (pipes bp)\<rparr>))"

text \<open>The new mailbox and the pipe that now holds it as its last consumer.\<close>

definition get_output_conn :: "'a broadcast_pipe \<Rightarrow> 'a store \<times> 'a broadcast_pipe" where
  "get_output_conn bp =
     (let pipe = Store (capacity bp) in (pipe, bp\<lparr>pipes := pipes bp @ [pipe]\<rparr>))"

text \<open>A sequence of puts; it stops at the first one that raises.\<close>

fun put_all :: "'a list \<Rightarrow> 'a broadcast_pipe \<Rightarrow> error + 'a broadcast_pipe" where
  "put_all [] bp = Inr bp"
| "put_all (v # vs) bp = (case put v bp of Inl e \<Rightarrow> Inl e | Inr bp' \<Rightarrow> put_all vs bp')"

subsection \<open>RO: the ring oscillator\<close>

text \<open>
  \<^verbatim>\<open>self.out_pipe\<close> is a reference to a pipe that its consumers share, so the pipe is
  passed to the functions below and returned by them (\<open>None\<close> is Python's \<^verbatim>\<open>None\<close>).
  \<^verbatim>\<open>frequency = 1 / period\<close> raises for a zero period.
\<close>

record ro =
  ro_state :: bool
  jitter :: real
  period :: real
  half_period :: real
  frequency :: real
  ro_data :: "(real \<times> bool) list"
  ro_verbose :: bool

definition RO :: "real \<Rightarrow> real \<Rightarrow> bool \<Rightarrow> error + ro" where
  "RO p j v =
     (if p = 0 then Inl ZeroDivisionError
      else Inr \<lparr>ro_state = True, jitter = j, period = p, half_period = p / 2,
                frequency = 1 / p, ro_data = [], ro_verbose = v\<rparr>)"

text \<open>Lines 37 to 41: what the oscillator does when a half-period wait is over.\<close>

definition ro_toggle ::
  "real \<Rightarrow> ro \<Rightarrow> bool broadcast_pipe option \<Rightarrow> error + (ro \<times> bool broadcast_pipe option)" where
  "ro_toggle now r out_pipe =
     (let s = \<not> ro_state r;
          r' = r\<lparr>ro_state := s,
                 ro_data := (if ro_verbose r then ro_data r @ [(now, s)] else ro_data r)\<rparr>
      in case out_pipe of
           None \<Rightarrow> Inr (r', None)
         | Some bp \<Rightarrow> (case put s bp of Inl e \<Rightarrow> Inl e | Inr bp' \<Rightarrow> Inr (r', Some bp')))"

text \<open>
  The \<^verbatim>\<open>while True\<close> loop of \<^verbatim>\<open>RO.run\<close>, one iteration for each value that
  \<^verbatim>\<open>normalvariate(0, jitter * sqrt(2) / 2)\<close> returns: the list of draws is the
  randomness of the run and bounds its length. The result holds the simulated time at
  which the process stands when the draws are used up.
\<close>

fun ro_loop ::
  "real \<Rightarrow> real list \<Rightarrow> ro \<Rightarrow> bool broadcast_pipe option
     \<Rightarrow> error + (real \<times> ro \<times> bool broadcast_pipe option)" where
  "ro_loop now [] r out_pipe = Inr (now, r, out_pipe)"
| "ro_loop now (d # ds) r out_pipe =
     (case timeout now (half_period r + d) of
        Inl e \<Rightarrow> Inl e
      | Inr t \<Rightarrow>
          (case ro_toggle t r out_pipe of
             Inl e \<Rightarrow> Inl e
           | Inr (r', out_pipe') \<Rightarrow> ro_loop t ds r' out_pipe'))"

definition ro_run ::
  "real \<Rightarrow> real list \<Rightarrow> ro \<Rightarrow> bool broadcast_pipe option
     \<Rightarrow> error + (real \<times> ro \<times> bool broadcast_pipe option)" where
  "ro_run now ds r out_pipe =
     (if out_pipe \<noteq> None then
        (case timeout now (period r / 4) of
           Inl e \<Rightarrow> Inl e
         | Inr t \<Rightarrow> ro_loop t ds r out_pipe)
      else ro_loop now ds r out_pipe)"

subsection \<open>FF: the latch\<close>

record ff =
  ff_state :: bool
  ff_old_state :: bool
  ff_data :: "(real \<times> bool) list"
  ff_verbose :: bool

definition FF :: "bool \<Rightarrow> ff" where
  "FF v = \<lparr>ff_state = False, ff_old_state = False, ff_data = [], ff_verbose = v\<rparr>"

text \<open>
  One iteration of \<^verbatim>\<open>FF.run\<close>: \<open>clk\<close> is the value that \<^verbatim>\<open>i_clk_pipe.get()\<close> returned at
  time \<open>now\<close>, \<open>i_data_state\<close> is \<^verbatim>\<open>self.i_data.state\<close> read at line 59.
\<close>

definition ff_step ::
  "real \<Rightarrow> bool \<Rightarrow> bool \<Rightarrow> ff \<Rightarrow> bool broadcast_pipe \<Rightarrow> error + (ff \<times> bool broadcast_pipe)" where
  "ff_step now clk i_data_state f o_beat_pipe =
     (if clk then
        (let f1 = f\<lparr>ff_old_state := ff_state f\<rparr>;
             f2 = f1\<lparr>ff_state := i_data_state\<rparr>;
             f3 = (if ff_verbose f2 then f2\<lparr>ff_data := ff_data f2 @ [(now, ff_state f2)]\<rparr> else f2)
         in case put (ff_state f3) o_beat_pipe of
              Inl e \<Rightarrow> Inl e
            | Inr bp \<Rightarrow> Inr (f3, bp))
      else Inr (f, o_beat_pipe))"

subsection \<open>Counter: the edge counter\<close>

record counter =
  count :: int
  counter_data :: "(real \<times> int) list"
  count_max :: "int list"
  avg :: real
  counter_n :: int
  counter_verbose :: bool
  counter_old_state :: bool

definition Counter :: "bool \<Rightarrow> counter" where
  "Counter v = \<lparr>count = 0, counter_data = [], count_max = [], avg = 0, counter_n = 1,
                counter_verbose = v, counter_old_state = False\<rparr>"

text \<open>The property \<^verbatim>\<open>Counter.state\<close>.\<close>

definition counter_state :: "counter \<Rightarrow> int" where
  "counter_state c = count c mod 2"

text \<open>
  Lines 89 to 99, which run when the wait of line 88 is over: \<open>rst\<close> is
  \<^verbatim>\<open>self.i_rst.state\<close> as lines 92 and 99 read it (nothing runs between the two reads),
  \<open>o_Q_pipe\<close> is the mailbox the count is published to. The division by
  \<^verbatim>\<open>self.n\<close> raises when \<^verbatim>\<open>n\<close> is zero.
\<close>

definition counter_settle ::
  "real \<Rightarrow> bool \<Rightarrow> counter \<Rightarrow> int store \<Rightarrow> error + (counter \<times> int store)" where
  "counter_settle now rst c o_Q_pipe =
     (let c1 = (if counter_verbose c then c\<lparr>counter_data := counter_data c @ [(now, count c)]\<rparr> else c);
          q = store_put (count c1) o_Q_pipe
      in if rst \<and> \<not> counter_old_state c1 then
           (if counter_n c1 = 0 then Inl ZeroDivisionError
            else Inr (c1\<lparr>avg := avg c1 + (real_of_int (count c1) - avg c1) / real_of_int (counter_n c1),
                         counter_n := counter_n c1 + 1,
                         count_max := count_max c1 @ [count c1],
                         count := 0,
                         counter_old_state := rst\<rparr>, q))
         else Inr (c1\<lparr>count := count c1 + 1, counter_old_state := rst\<rparr>, q))"

text \<open>
  One iteration of \<^verbatim>\<open>Counter.run\<close>: \<open>clk\<close> is the value that \<^verbatim>\<open>i_clk_pipe.get()\<close>
  returned at time \<open>now\<close>. The result holds the time at which the iteration ends.
\<close>

definition counter_step ::
  "real \<Rightarrow> bool \<Rightarrow> bool \<Rightarrow> counter \<Rightarrow> int store \<Rightarrow> error + (real \<times> counter \<times> int store)" where
  "counter_step now clk rst c o_Q_pipe =
     (if clk then
        (case timeout now (1 / 10 ^ 15) of
           Inl e \<Rightarrow> Inl e
         | Inr t \<Rightarrow>
             (case counter_settle t rst c o_Q_pipe of
                Inl e \<Rightarrow> Inl e
              | Inr (c', q) \<Rightarrow> Inr (t, c', q)))
      else Inr (now, c, o_Q_pipe))"

text \<open>
  The loop of \<^verbatim>\<open>Counter.run\<close> over the messages it receives: each message is the time
  at which the get returns, the clock value received and the reset gate's state at
  the moment it would be read.
\<close>

fun counter_run ::
  "(real \<times> bool \<times> bool) list \<Rightarrow> counter \<Rightarrow> int store \<Rightarrow> error + (counter \<times> int store)" where
  "counter_run [] c q = Inr (c, q)"
| "counter_run ((now, clk, rst) # ms) c q =
     (case counter_step now clk rst c q of
        Inl e \<Rightarrow> Inl e
      | Inr (t, c', q') \<Rightarrow> counter_run ms c' q')"

subsection \<open>RandOut: the sampler\<close>

text \<open>\<^verbatim>\<open>data\<close> holds pairs \<^verbatim>\<open>(env.now, value)\<close> in verbose mode and bare values otherwise.\<close>

datatype sample = Bare int | Stamped real int

record rand_out =
  rand_data :: "sample list"
  old_i_clk :: bool
  rand_verbose :: bool

definition RandOut :: "bool \<Rightarrow> rand_out" where
  "RandOut v = \<lparr>rand_data = [], old_i_clk = False, rand_verbose = v\<rparr>"

text \<open>
  One iteration of \<^verbatim>\<open>RandOut.run\<close>: \<open>i_clk\<close> is the value received at time \<open>now\<close>,
  \<open>i_Q_state\<close> is \<^verbatim>\<open>self.i_Q.state\<close> as lines 117 and 119 read it.
\<close>

definition rand_out_step :: "real \<Rightarrow> bool \<Rightarrow> int \<Rightarrow> rand_out \<Rightarrow> rand_out" where
  "rand_out_step now i_clk i_Q_state r =
     (let r' = (if i_clk \<and> \<not> old_i_clk r then
                  (if rand_verbose r then r\<lparr>rand_data := rand_data r @ [Stamped now i_Q_state]\<rparr>
                   else r\<lparr>rand_data := rand_data r @ [Bare i_Q_state]\<rparr>)
                else r)
      in r'\<lparr>old_i_clk := i_clk\<rparr>)"

subsection \<open>TRNG: the assembly and its statistic\<close>

text \<open>
  \<^verbatim>\<open>TRNG.__init__\<close>: the latch owns the first mailbox of \<open>ro2_bc_pipe\<close>, the counter the
  second; the sampler owns the only mailbox of \<open>beat_bc_pipe\<close> and reads the counter
  (\<^verbatim>\<open>i_Q = self.counter\<close>). \<open>env_now\<close> is \<^verbatim>\<open>env.now\<close>.
\<close>

record trng =
  env_now :: real
  trng_period :: real
  delta :: real
  jitter1 :: real
  jitter2 :: real
  ro2_bc_pipe :: "bool broadcast_pipe"
  beat_bc_pipe :: "bool broadcast_pipe"
  counter_pipe :: "int store"
  q_pipe :: "int store"
  trng_out_pipe :: "int store"
  ro1 :: ro
  ro2 :: ro
  beat_ff :: ff
  trng_counter :: counter
  trng_rand_out :: rand_out
  trng_data :: "sample list"

definition TRNG :: "real \<Rightarrow> real \<Rightarrow> real \<Rightarrow> real \<Rightarrow> bool \<Rightarrow> error + trng" where
  "TRNG p dl j1 j2 v =
     (case RO p j1 v of
        Inl e \<Rightarrow> Inl e
      | Inr r1 \<Rightarrow>
          (case RO (p + dl) j2 v of
             Inl e \<Rightarrow> Inl e
           | Inr r2 \<Rightarrow>
               (let (ff_clk, bc1) = get_output_conn (BroadcastPipe \<infinity>);
                    (counter_clk, bc2) = get_output_conn bc1;
                    (rand_clk, beat1) = get_output_conn (BroadcastPipe \<infinity>)
                in Inr \<lparr>env_now = 0, trng_period = p, delta = dl, jitter1 = j1, jitter2 = j2,
                         ro2_bc_pipe = bc2, beat_bc_pipe = beat1,
                         counter_pipe = Store \<infinity>, q_pipe = Store \<infinity>, trng_out_pipe = Store \<infinity>,
                         ro1 = r1, ro2 = r2, beat_ff = FF v, trng_counter = Counter v,
                         trng_rand_out = RandOut v, trng_data = []\<rparr>)))"

text \<open>
  The sampler's process inside the assembly: it takes the oldest value of its mailbox
  (and stays suspended when there is none) and runs one iteration with the counter's
  \<^verbatim>\<open>state\<close> as it is now.
\<close>

definition trng_rand_out_step :: "trng \<Rightarrow> trng" where
  "trng_rand_out_step t =
     (case pipes (beat_bc_pipe t) of
        [] \<Rightarrow> t
      | s # ss \<Rightarrow>
          (case store_get s of
             None \<Rightarrow> t
           | Some (i_clk, s') \<Rightarrow>
               t\<lparr>beat_bc_pipe := (beat_bc_pipe t)\<lparr>pipes := s' # ss\<rparr>,
                  trng_rand_out :=
                    rand_out_step (env_now t) i_clk (counter_state (trng_counter t)) (trng_rand_out t)\<rparr>))"

text \<open>
  \<^verbatim>\<open>np.std\<close> with its default \<^verbatim>\<open>ddof=0\<close>: the square root of the mean of the squared
  deviations from the mean; \<open>None\<close> is numpy's \<^verbatim>\<open>nan\<close> (or \<^verbatim>\<open>inf\<close>), which it returns
  for an empty input.
\<close>

definition np_mean :: "real list \<Rightarrow> real" where
  "np_mean xs = sum_list xs / real (length xs)"

definition np_std :: "int list \<Rightarrow> real option" where
  "np_std a =
     (if a = [] then None
      else (let xs = map real_of_int a; m = np_mean xs
            in Some (sqrt (np_mean (map (\<lambda>x. \<bar>x - m\<bar> ^ 2) xs)))))"

text \<open>
  The property \<^verbatim>\<open>TRNG.sigma\<close>. \<^verbatim>\<open>2 * self.period / self.delta\<close> is Python arithmetic and
  raises for a zero delta; the rest is numpy arithmetic, where the square root of a
  negative number and a division by zero give \<^verbatim>\<open>nan\<close> or \<^verbatim>\<open>inf\<close>.
\<close>

definition sigma :: "trng \<Rightarrow> error + real option" where
  "sigma t =
     (let sd = np_std (drop 1 (count_max (trng_counter t))) in
      if delta t = 0 then Inl ZeroDivisionError
      else (let r = 2 * trng_period t / delta t in
            if r \<le> 0 then Inr None
            else Inr (map_option (\<lambda>x. x * delta t / sqrt r) sd)))"

subsection \<open>The specification's wording, for comparison\<close>

text \<open>
  The spec's statistic (section 4.8): the standard deviation of \<open>count_at_reset\<close> without
  its first entry, scaled by \<open>\<Delta> / \<surd>(2P/\<Delta>)\<close>. The standard deviation of a sequence is
  the root of its variance, the mean square minus the squared mean.
\<close>

definition variance :: "real list \<Rightarrow> real" where
  "variance xs =
     sum_list (map (\<lambda>x. x ^ 2) xs) / real (length xs) - (sum_list xs / real (length xs)) ^ 2"

definition spec_sigma :: "real \<Rightarrow> real \<Rightarrow> int list \<Rightarrow> real" where
  "spec_sigma P \<Delta> count_at_reset =
     sqrt (variance (map real_of_int (tl count_at_reset))) * (\<Delta> / sqrt (2 * P / \<Delta>))"

subsection \<open>Notions used to state the properties\<close>

text \<open>
  A history of the counter is the list of the messages it has received, oldest first
  (time of receipt, clock value, state of the reset gate at the moment it would be
  read). The gate is observed at the true-valued messages only: \<open>last_observed\<close> is its
  state at the latest of them, false before the first. A message is a reset event when
  it is true-valued and the gate is true after having last been observed false.
  \<open>edges_since_reset\<close> walks back from the latest message of a history and counts the
  true-valued messages up to the latest reset event, which it does not count; without
  a reset event it counts back to the start of the run.
\<close>

definition last_observed :: "(real \<times> bool \<times> bool) list \<Rightarrow> bool" where
  "last_observed ms =
     (case rev (filter (\<lambda>(now, clk, rst). clk) ms) of [] \<Rightarrow> False | (now, clk, rst) # xs \<Rightarrow> rst)"

definition reset_event :: "(real \<times> bool \<times> bool) list \<Rightarrow> real \<times> bool \<times> bool \<Rightarrow> bool" where
  "reset_event earlier m = (case m of (now, clk, rst) \<Rightarrow> clk \<and> rst \<and> \<not> last_observed earlier)"

fun edges_back :: "(real \<times> bool \<times> bool) list \<Rightarrow> nat" where
  "edges_back [] = 0"
| "edges_back (m # older) =
     (if reset_event (rev older) m then 0
      else (if fst (snd m) then 1 else 0) + edges_back older)"

definition edges_since_reset :: "(real \<times> bool \<times> bool) list \<Rightarrow> nat" where
  "edges_since_reset ms = edges_back (rev ms)"

text \<open>
  A state of the assembly in which the sampler is about to receive a rising edge, used
  as a concrete input below.
\<close>

abbreviation sampling_example :: trng where
  "sampling_example \<equiv>
     \<lparr>env_now = 9, trng_period = 2, delta = 1, jitter1 = 0, jitter2 = 0,
      ro2_bc_pipe = \<lparr>capacity = \<infinity>, pipes = [Store \<infinity>, Store \<infinity>]\<rparr>,
      beat_bc_pipe = \<lparr>capacity = \<infinity>,
                      pipes = [\<lparr>store_capacity = \<infinity>, items = [True], put_queue = []\<rparr>]\<rparr>,
      counter_pipe = Store \<infinity>,
      q_pipe = \<lparr>store_capacity = \<infinity>, items = [0, 1], put_queue = []\<rparr>,
      trng_out_pipe = Store \<infinity>,
      ro1 = \<lparr>ro_state = True, jitter = 0, period = 2, half_period = 1, frequency = 1 / 2,
             ro_data = [], ro_verbose = False\<rparr>,
      ro2 = \<lparr>ro_state = True, jitter = 0, period = 3, half_period = 3 / 2, frequency = 1 / 3,
             ro_data = [], ro_verbose = False\<rparr>,
      beat_ff = \<lparr>ff_state = True, ff_old_state = False, ff_data = [], ff_verbose = False\<rparr>,
      trng_counter = \<lparr>count = 2, counter_data = [], count_max = [7, 1, 3], avg = 11 / 3,
                      counter_n = 4, counter_verbose = False, counter_old_state = False\<rparr>,
      trng_rand_out = \<lparr>rand_data = [], old_i_clk = False, rand_verbose = False\<rparr>,
      trng_data = []\<rparr>"

section \<open>Properties\<close>

subsection \<open>Mailboxes and the broadcast pipe\<close>

lemma trigger_put_room:
  "enat (length its + length q) \<le> cap \<Longrightarrow> trigger_put cap its q = (its @ q, [])"
proof (induction q arbitrary: its)
  case Nil
  then show ?case by simp
next
  case (Cons p ps)
  have "enat (length its) < cap"
    using Cons.prems by (cases cap) auto
  moreover have "trigger_put cap (its @ [p]) ps = ((its @ [p]) @ ps, [])"
    using Cons.prems by (intro Cons.IH) simp
  ultimately show ?case by simp
qed

lemma store_put_room:
  assumes "put_queue s = []" and "enat (Suc (length (items s))) \<le> store_capacity s"
  shows "store_put v s = s\<lparr>items := items s @ [v]\<rparr>"
  using assms trigger_put_room [of "items s" "[v]" "store_capacity s"]
  by (simp add: store_put_def)

lemma put_all_room:
  assumes "pipes bp \<noteq> []"
    and "\<forall>s\<in>set (pipes bp). put_queue s = [] \<and> enat (length (items s) + length vs) \<le> store_capacity s"
  shows "put_all vs bp = Inr (bp\<lparr>pipes := map (\<lambda>s. s\<lparr>items := items s @ vs\<rparr>) (pipes bp)\<rparr>)"
  using assms
proof (induction vs arbitrary: bp)
  case Nil
  then show ?case by (simp add: map_idI)
next
  case (Cons v vs)
  let ?bp = "bp\<lparr>pipes := map (\<lambda>s. s\<lparr>items := items s @ [v]\<rparr>) (pipes bp)\<rparr>"
  have one: "map (store_put v) (pipes bp) = map (\<lambda>s. s\<lparr>items := items s @ [v]\<rparr>) (pipes bp)"
  proof (rule map_cong [OF refl])
    fix s assume "s \<in> set (pipes bp)"
    with Cons.prems(2) have "put_queue s = []" "enat (length (items s) + length (v # vs)) \<le> store_capacity s"
      by auto
    then have "enat (Suc (length (items s))) \<le> store_capacity s"
      by (cases "store_capacity s") auto
    with \<open>put_queue s = []\<close> show "store_put v s = s\<lparr>items := items s @ [v]\<rparr>"
      by (rule store_put_room)
  qed
  have p: "put v bp = Inr ?bp"
    using Cons.prems(1) by (simp add: put_def one)
  have "put_all vs ?bp = Inr (?bp\<lparr>pipes := map (\<lambda>s. s\<lparr>items := items s @ vs\<rparr>) (pipes ?bp)\<rparr>)"
    using Cons.prems by (intro Cons.IH) auto
  then show ?case
    by (simp add: p o_def)
qed

text \<open>
  Claim C6. A put on a pipe that has no consumer mailbox fails, with the program's
  \<^verbatim>\<open>RuntimeError("There are no output pipes.")\<close> (the spec's NoConsumersError), and the
  two callers of put, the oscillator's toggle (and with it the oscillator's run) and the
  latch's iteration, fail with the same error: neither catches it.
\<close>

theorem put_without_consumers_raises:
  assumes "pipes bp = []"
  shows "put v bp = Inl (RuntimeError ''There are no output pipes.'')
       \<and> ro_toggle now r (Some bp) = Inl (RuntimeError ''There are no output pipes.'')
       \<and> (0 \<le> period r \<and> 0 \<le> half_period r + dl \<longrightarrow>
            ro_run now (dl # ds) r (Some bp) = Inl (RuntimeError ''There are no output pipes.''))
       \<and> ff_step now True d f bp = Inl (RuntimeError ''There are no output pipes.'')"
  using assms by (simp add: put_def ro_toggle_def ro_run_def timeout_def ff_step_def Let_def)

theorem put_without_consumers_raises_witness:
  "pipes (BroadcastPipe \<infinity> :: bool broadcast_pipe) = []
   \<and> put True (BroadcastPipe \<infinity>) = Inl (RuntimeError ''There are no output pipes.'')
   \<and> ro_toggle 1 \<lparr>ro_state = True, jitter = 0, period = 4, half_period = 2, frequency = 1 / 4,
                    ro_data = [], ro_verbose = False\<rparr> (Some (BroadcastPipe \<infinity>))
       = Inl (RuntimeError ''There are no output pipes.'')
   \<and> ro_run 1 [0, 0] \<lparr>ro_state = True, jitter = 0, period = 4, half_period = 2, frequency = 1 / 4,
                    ro_data = [], ro_verbose = False\<rparr> (Some (BroadcastPipe \<infinity>))
       = Inl (RuntimeError ''There are no output pipes.'')
   \<and> ff_step 1 True True (FF False) (BroadcastPipe \<infinity>) = Inl (RuntimeError ''There are no output pipes.'')"
  using put_without_consumers_raises [of "BroadcastPipe \<infinity>" True 1
      "\<lparr>ro_state = True, jitter = 0, period = 4, half_period = 2, frequency = 1 / 4,
        ro_data = [], ro_verbose = False\<rparr>" 0 "[0]" True "FF False"]
  by (simp add: BroadcastPipe_def)

text \<open>
  Claim C7. On a pipe with at least one consumer mailbox, where every mailbox has room
  for the values (as every mailbox of the default, unbounded capacity has), a sequence
  of puts appends exactly the values put, in the order of the puts, to the items of
  every registered mailbox, so one put delivers one copy of its value to each. A
  consumer registered afterwards gets a new mailbox that holds none of the values put
  before, and the pipe keeps the mailboxes it had.
\<close>

theorem broadcast_fan_out:
  assumes "pipes bp \<noteq> []"
    and "\<forall>s\<in>set (pipes bp). put_queue s = [] \<and> enat (length (items s) + length vs) \<le> store_capacity s"
  shows "put_all vs bp = Inr (bp\<lparr>pipes := map (\<lambda>s. s\<lparr>items := items s @ vs\<rparr>) (pipes bp)\<rparr>)
       \<and> get_output_conn (bp\<lparr>pipes := map (\<lambda>s. s\<lparr>items := items s @ vs\<rparr>) (pipes bp)\<rparr>)
           = (Store (capacity bp),
              bp\<lparr>pipes := map (\<lambda>s. s\<lparr>items := items s @ vs\<rparr>) (pipes bp) @ [Store (capacity bp)]\<rparr>)
       \<and> items (Store (capacity bp) :: 'a store) = []"
  using put_all_room [OF assms] by (simp add: get_output_conn_def Store_def Let_def)

theorem broadcast_fan_out_witness:
  "put_all [True, False]
     \<lparr>capacity = \<infinity>, pipes = [Store \<infinity>, \<lparr>store_capacity = 3, items = [False], put_queue = []\<rparr>]\<rparr>
     = Inr \<lparr>capacity = \<infinity>,
            pipes = [\<lparr>store_capacity = \<infinity>, items = [True, False], put_queue = []\<rparr>,
                     \<lparr>store_capacity = 3, items = [False, True, False], put_queue = []\<rparr>]\<rparr>"
  using broadcast_fan_out [of "\<lparr>capacity = \<infinity>, pipes = [Store \<infinity>, \<lparr>store_capacity = 3, items = [False], put_queue = []\<rparr>]\<rparr>" "[True, False]"]
  by (simp add: Store_def numeral_eq_enat)

subsection \<open>The oscillator\<close>

lemma ro_toggle_half_period:
  "ro_toggle t r out = Inr (r', out') \<Longrightarrow> half_period r' = half_period r \<and> period r' = period r"
  by (auto simp: ro_toggle_def Let_def split: option.splits sum.splits)

lemma ro_loop_half_period:
  "ro_loop now ds r out = Inr (t, r', out') \<Longrightarrow> half_period r' = half_period r"
proof (induction ds arbitrary: now r out)
  case Nil
  then show ?case by simp
next
  case (Cons d ds)
  from Cons.prems obtain t1 r1 out1 where
    "ro_toggle t1 r out = Inr (r1, out1)" and "ro_loop t1 ds r1 out1 = Inr (t, r', out')"
    by (auto split: sum.splits)
  then show ?case
    using Cons.IH ro_toggle_half_period by fastforce
qed

lemma ro_loop_append:
  "ro_loop now (ds1 @ ds2) r out =
     (case ro_loop now ds1 r out of Inl e \<Rightarrow> Inl e | Inr (t, r', out') \<Rightarrow> ro_loop t ds2 r' out')"
  by (induction ds1 arbitrary: now r out) (auto split: sum.splits)

lemma ro_loop_negative:
  assumes "ro_loop now ds r out = Inr (t, r', out')" and "half_period r + d < 0"
  shows "ro_loop now (ds @ d # ds') r out = Inl (InvalidDelay (half_period r + d))"
  using assms ro_loop_half_period [OF assms(1)]
  by (simp add: ro_loop_append timeout_def)

text \<open>
  Claim C9. When the run of an oscillator reaches a wait whose duration, the half
  period plus the jitter draw, is negative, the run ends there with the scheduler's
  InvalidDelay error: the oscillator does not go on, neither with the negative wait nor
  with a clamped one, and the draws that follow are never used.
\<close>

theorem negative_wait_raises:
  assumes "ro_run now ds r out = Inr (t, r', out')" and "half_period r + d < 0"
  shows "ro_run now (ds @ d # ds') r out = Inl (InvalidDelay (half_period r + d))"
proof (cases "out = None")
  case True
  with assms show ?thesis
    by (simp add: ro_run_def ro_loop_negative)
next
  case False
  with assms(1) obtain t0 where "timeout now (period r / 4) = Inr t0"
    and "ro_loop t0 ds r out = Inr (t, r', out')"
    by (auto simp: ro_run_def split: sum.splits)
  with False assms(2) show ?thesis
    by (simp add: ro_run_def ro_loop_negative)
qed

theorem negative_wait_raises_witness:
  "ro_run 0 [] \<lparr>ro_state = True, jitter = 5, period = 4, half_period = 2, frequency = 1 / 4,
                 ro_data = [], ro_verbose = False\<rparr> None
     = Inr (0, \<lparr>ro_state = True, jitter = 5, period = 4, half_period = 2, frequency = 1 / 4,
                 ro_data = [], ro_verbose = False\<rparr>, None)
   \<and> ro_run 0 [- 3, 1] \<lparr>ro_state = True, jitter = 5, period = 4, half_period = 2, frequency = 1 / 4,
                 ro_data = [], ro_verbose = False\<rparr> None = Inl (InvalidDelay (- 1))"
  using negative_wait_raises [of 0 "[]" "\<lparr>ro_state = True, jitter = 5, period = 4, half_period = 2,
      frequency = 1 / 4, ro_data = [], ro_verbose = False\<rparr>" None 0 "\<lparr>ro_state = True, jitter = 5, period = 4, half_period = 2,
      frequency = 1 / 4, ro_data = [], ro_verbose = False\<rparr>" None "- 3" "[1]"]
  by (simp add: ro_run_def)

text \<open>
  Claim C10. An oscillator with an output sink first waits a quarter of its period and
  only then starts its loop, so its first flip is at \<open>period / 4 + half_period + jitter\<close>
  after the start; an oscillator without a sink starts its first half-period wait at
  once and flips first at \<open>half_period + jitter\<close>. (Delays are taken non-negative and the
  sink has a consumer, so that neither the wait nor the put raises.)
\<close>

theorem first_flip_time:
  assumes "0 \<le> period r" and "0 \<le> half_period r + d" and "pipes bp \<noteq> []"
  shows "ro_run now [] r (Some bp) = Inr (now + period r / 4, r, Some bp)
       \<and> ro_run now [d] r (Some bp) =
           Inr (now + period r / 4 + (half_period r + d),
                r\<lparr>ro_state := \<not> ro_state r,
                  ro_data := (if ro_verbose r
                              then ro_data r @ [(now + period r / 4 + (half_period r + d), \<not> ro_state r)]
                              else ro_data r)\<rparr>,
                Some (bp\<lparr>pipes := map (store_put (\<not> ro_state r)) (pipes bp)\<rparr>))
       \<and> ro_run now [] r None = Inr (now, r, None)
       \<and> ro_run now [d] r None =
           Inr (now + (half_period r + d),
                r\<lparr>ro_state := \<not> ro_state r,
                  ro_data := (if ro_verbose r
                              then ro_data r @ [(now + (half_period r + d), \<not> ro_state r)]
                              else ro_data r)\<rparr>,
                None)"
  using assms by (simp add: ro_run_def timeout_def ro_toggle_def put_def Let_def)

theorem first_flip_time_witness:
  "ro_run 0 [1 / 2] \<lparr>ro_state = True, jitter = 1, period = 4, half_period = 2, frequency = 1 / 4,
                     ro_data = [], ro_verbose = True\<rparr> (Some \<lparr>capacity = \<infinity>, pipes = [Store \<infinity>]\<rparr>)
     = Inr (7 / 2, \<lparr>ro_state = False, jitter = 1, period = 4, half_period = 2, frequency = 1 / 4,
                     ro_data = [(7 / 2, False)], ro_verbose = True\<rparr>,
            Some \<lparr>capacity = \<infinity>, pipes = [\<lparr>store_capacity = \<infinity>, items = [False], put_queue = []\<rparr>]\<rparr>)
   \<and> ro_run 0 [1 / 2] \<lparr>ro_state = True, jitter = 1, period = 4, half_period = 2, frequency = 1 / 4,
                     ro_data = [], ro_verbose = True\<rparr> None
     = Inr (5 / 2, \<lparr>ro_state = False, jitter = 1, period = 4, half_period = 2, frequency = 1 / 4,
                     ro_data = [(5 / 2, False)], ro_verbose = True\<rparr>, None)"
  using first_flip_time [of "\<lparr>ro_state = True, jitter = 1, period = 4, half_period = 2, frequency = 1 / 4,
                     ro_data = [], ro_verbose = True\<rparr>" "1 / 2" "\<lparr>capacity = \<infinity>, pipes = [Store \<infinity>]\<rparr>" 0]
  by (simp add: Store_def store_put_def)

subsection \<open>The latch\<close>

text \<open>
  Claim C5. On a true value from its clock mailbox the latch keeps its state in
  \<open>old_state\<close>, takes the data source's state as read at that moment for its new state
  and puts the new state on every mailbox of its output pipe; on a false value nothing
  changes and nothing is put. (The output pipe has a consumer; without one the put
  raises, see C6.)
\<close>

theorem latch_step:
  assumes "pipes bp \<noteq> []"
  shows "ff_step now True d f bp =
           Inr (f\<lparr>ff_old_state := ff_state f, ff_state := d,
                  ff_data := (if ff_verbose f then ff_data f @ [(now, d)] else ff_data f)\<rparr>,
                bp\<lparr>pipes := map (store_put d) (pipes bp)\<rparr>)
       \<and> ff_step now False d f bp = Inr (f, bp)"
  using assms by (simp add: ff_step_def put_def Let_def)

theorem latch_step_witness:
  "ff_step 5 True True (FF True) \<lparr>capacity = \<infinity>, pipes = [Store \<infinity>]\<rparr> =
     Inr (\<lparr>ff_state = True, ff_old_state = False, ff_data = [(5, True)], ff_verbose = True\<rparr>,
          \<lparr>capacity = \<infinity>, pipes = [\<lparr>store_capacity = \<infinity>, items = [True], put_queue = []\<rparr>]\<rparr>)
   \<and> ff_step 5 False True (FF True) \<lparr>capacity = \<infinity>, pipes = [Store \<infinity>]\<rparr> =
     Inr (FF True, \<lparr>capacity = \<infinity>, pipes = [Store \<infinity>]\<rparr>)"
  using latch_step [of "\<lparr>capacity = \<infinity>, pipes = [Store \<infinity>]\<rparr>" 5 True "FF True"]
  by (simp add: FF_def Store_def store_put_def)

subsection \<open>The counter\<close>

text \<open>
  Claim C4. On a true-valued clock message the counter first waits \<open>1e-15\<close> (the
  iteration ends that much later, and the verbose record carries that time), then puts
  the count it had on its output mailbox, then looks at the reset gate: when the gate
  is true and was last observed false, the mean becomes \<open>avg + (count - avg) / n\<close>, \<open>n\<close>
  grows by one, the count is appended to \<open>count_max\<close> and reset to zero; otherwise the
  count grows by one and the mean, \<open>n\<close> and \<open>count_max\<close> stay. (\<open>n\<close> is not zero, as it
  never is in a run: it starts at one and only grows.)
\<close>

theorem counter_true_message:
  assumes "counter_n c \<noteq> 0"
  shows "\<exists>c'. counter_step now True rst c q = Inr (now + 1 / 10 ^ 15, c', store_put (count c) q)
          \<and> counter_data c' = (if counter_verbose c
                                then counter_data c @ [(now + 1 / 10 ^ 15, count c)]
                                else counter_data c)
          \<and> (rst \<and> \<not> counter_old_state c \<longrightarrow>
                avg c' = avg c + (real_of_int (count c) - avg c) / real_of_int (counter_n c)
              \<and> counter_n c' = counter_n c + 1
              \<and> count_max c' = count_max c @ [count c]
              \<and> count c' = 0)
          \<and> (\<not> (rst \<and> \<not> counter_old_state c) \<longrightarrow>
                count c' = count c + 1 \<and> avg c' = avg c \<and> counter_n c' = counter_n c
              \<and> count_max c' = count_max c)"
  using assms by (simp add: counter_step_def timeout_def counter_settle_def Let_def)

theorem counter_true_message_witness:
  "counter_step 0 True True
     \<lparr>count = 3, counter_data = [], count_max = [5], avg = 5, counter_n = 2,
      counter_verbose = False, counter_old_state = False\<rparr> (Store \<infinity>)
   = Inr (1 / 10 ^ 15,
          \<lparr>count = 0, counter_data = [], count_max = [5, 3], avg = 4, counter_n = 3,
           counter_verbose = False, counter_old_state = True\<rparr>,
          \<lparr>store_capacity = \<infinity>, items = [3], put_queue = []\<rparr>)"
  using counter_true_message [of "\<lparr>count = 3, counter_data = [], count_max = [5], avg = 5, counter_n = 2,
      counter_verbose = False, counter_old_state = False\<rparr>" 0 True "Store \<infinity>"]
  by (simp add: counter_step_def timeout_def counter_settle_def Let_def Store_def store_put_def)

text \<open>
  Claim C8, as stated, fails: the flag \<open>old_state\<close> is assigned inside the branch of the
  true-valued message. A counter that has observed the gate false and receives a false
  clock value while the gate is true keeps its flag false.
\<close>

theorem counter_old_state_counterexample:
  "counter_step 0 False True (Counter False) (Store \<infinity>) = Inr (0, Counter False, Store \<infinity>)
   \<and> counter_old_state (Counter False) \<noteq> True"
  by (simp add: counter_step_def Counter_def)

text \<open>
  Claim C8, amended. After every iteration in which the received clock value is true,
  whichever of the reset and the increment branch is taken, \<open>old_state\<close> equals the
  reset gate's state read in that iteration; an iteration that receives a false clock
  value reads nothing and leaves the counter, and so \<open>old_state\<close>, as it was.
\<close>

theorem counter_old_state_update:
  assumes "counter_n c \<noteq> 0"
  shows "(\<exists>c' q'. counter_step now True rst c q = Inr (now + 1 / 10 ^ 15, c', q')
            \<and> counter_old_state c' = rst)
       \<and> counter_step now False rst c q = Inr (now, c, q)"
  using assms by (simp add: counter_step_def timeout_def counter_settle_def Let_def)

theorem counter_old_state_update_witness:
  "counter_n (Counter False) \<noteq> 0
   \<and> (\<exists>c' q'. counter_step 0 True True (Counter False) (Store \<infinity>) = Inr (0 + 1 / 10 ^ 15, c', q')
            \<and> counter_old_state c' = True)
   \<and> (\<exists>c' q'. counter_step 0 True False (Counter False) (Store \<infinity>) = Inr (0 + 1 / 10 ^ 15, c', q')
            \<and> counter_old_state c' = False)
   \<and> counter_step 0 False True (Counter False) (Store \<infinity>) = Inr (0, Counter False, Store \<infinity>)"
  using counter_old_state_update [of "Counter False" 0 True "Store \<infinity>"]
    counter_old_state_update [of "Counter False" 0 False "Store \<infinity>"]
  by (simp add: Counter_def)

lemma last_observed_snoc:
  "last_observed (ms @ [(now, clk, rst)]) = (if clk then rst else last_observed ms)"
  by (simp add: last_observed_def split: list.splits)

lemma edges_since_reset_snoc:
  "edges_since_reset (ms @ [m]) =
     (if reset_event ms m then 0 else (if fst (snd m) then 1 else 0) + edges_since_reset ms)"
  by (simp add: edges_since_reset_def)

lemma counter_run_snoc:
  "counter_run (ms @ [m]) c q =
     (case counter_run ms c q of Inl e \<Rightarrow> Inl e | Inr (c', q') \<Rightarrow> counter_run [m] c' q')"
  by (induction ms c q rule: counter_run.induct) (auto split: sum.splits)

lemma counter_run_invariant:
  "\<exists>c q. counter_run ms (Counter v) q0 = Inr (c, q)
     \<and> 1 \<le> counter_n c
     \<and> counter_old_state c = last_observed ms
     \<and> count c = int (edges_since_reset ms)"
proof (induction ms rule: rev_induct)
  case Nil
  then show ?case
    by (simp add: Counter_def last_observed_def edges_since_reset_def)
next
  case (snoc m ms)
  then obtain c q where run: "counter_run ms (Counter v) q0 = Inr (c, q)"
    and n: "1 \<le> counter_n c" and old: "counter_old_state c = last_observed ms"
    and cnt: "count c = int (edges_since_reset ms)"
    by blast
  obtain now clk rst where m: "m = (now, clk, rst)"
    by (cases m) auto
  show ?case
  proof (cases clk)
    case False
    then show ?thesis
      using run n old cnt
      by (simp add: counter_run_snoc m counter_step_def last_observed_snoc
          edges_since_reset_snoc reset_event_def)
  next
    case True
    then show ?thesis
      using run n old cnt
      by (simp add: counter_run_snoc m counter_step_def timeout_def counter_settle_def Let_def
          last_observed_snoc edges_since_reset_snoc reset_event_def)
  qed
qed

text \<open>
  Claim C3. Run the counter from its initial state over any history and then over one
  more message. When that message is a reset event, the value it appends to \<open>count_max\<close>
  is the number of true-valued clock messages received since the previous reset event,
  or since the start of the run when there was none; the reset events themselves are
  the bounds of the interval and are not counted. A message that is not a reset event
  appends nothing. The run never raises.
\<close>

theorem count_at_reset:
  "\<exists>c q c' q'. counter_run ms (Counter v) q0 = Inr (c, q)
      \<and> counter_run (ms @ [m]) (Counter v) q0 = Inr (c', q')
      \<and> count_max c' = (if reset_event ms m then count_max c @ [int (edges_since_reset ms)]
                         else count_max c)"
proof -
  obtain c q where run: "counter_run ms (Counter v) q0 = Inr (c, q)"
    and n: "1 \<le> counter_n c" and old: "counter_old_state c = last_observed ms"
    and cnt: "count c = int (edges_since_reset ms)"
    using counter_run_invariant by blast
  obtain now clk rst where m: "m = (now, clk, rst)"
    by (cases m) auto
  show ?thesis
  proof (cases clk)
    case False
    then show ?thesis
      using run by (simp add: counter_run_snoc m counter_step_def reset_event_def)
  next
    case True
    then show ?thesis
      using run n old cnt
      by (simp add: counter_run_snoc m counter_step_def timeout_def counter_settle_def Let_def
          reset_event_def)
  qed
qed


theorem count_at_reset_witness:
  "reset_event [(0, True, False), (1, False, True), (2, True, False)] (3, True, True)
   \<and> edges_since_reset [(0, True, False), (1, False, True), (2, True, False)] = 2
   \<and> (\<exists>c q c' q'.
        counter_run [(0, True, False), (1, False, True), (2, True, False)] (Counter False) (Store \<infinity>) = Inr (c, q)
      \<and> counter_run [(0, True, False), (1, False, True), (2, True, False), (3, True, True)] (Counter False) (Store \<infinity>) = Inr (c', q')
      \<and> count_max c' = count_max c @ [2])"
  using count_at_reset [of "[(0, True, False), (1, False, True), (2, True, False)]" False "Store \<infinity>" "(3, True, True)"]
  by (simp add: reset_event_def last_observed_def edges_since_reset_def)

subsection \<open>The assembly\<close>

text \<open>
  What \<^verbatim>\<open>TRNG.__init__\<close> builds when it does not raise: both pipes have consumers, all
  mailboxes are empty and unbounded, and the components are in their initial states.
\<close>

lemma TRNG_wiring:
  assumes "TRNG p dl j1 j2 v = Inr t"
  shows "pipes (ro2_bc_pipe t) = [Store \<infinity>, Store \<infinity>]"
    and "pipes (beat_bc_pipe t) = [Store \<infinity>]"
    and "q_pipe t = Store \<infinity>"
    and "beat_ff t = FF v \<and> trng_counter t = Counter v \<and> trng_rand_out t = RandOut v"
    and "RO p j1 v = Inr (ro1 t) \<and> RO (p + dl) j2 v = Inr (ro2 t)"
  using assms
  by (auto simp: TRNG_def get_output_conn_def BroadcastPipe_def Let_def split: sum.splits)

subsection \<open>The sampler\<close>

text \<open>
  Claim C1, as stated, fails: the sampler reads the counter's property \<^verbatim>\<open>state\<close>, which
  is \<^verbatim>\<open>count % 2\<close>. With a count of 2 the rising edge records 0, not the count.
\<close>

theorem sampler_records_count_counterexample:
  "rand_data (trng_rand_out (trng_rand_out_step sampling_example))
     \<noteq> rand_data (trng_rand_out sampling_example) @ [Bare (count (trng_counter sampling_example))]"
  by (simp add: trng_rand_out_step_def store_get_def rand_out_step_def counter_state_def)

text \<open>
  Claim C1, amended. When the oldest value in the sampler's mailbox is true and the
  value received before it was false, the sampler appends exactly one entry to its
  output sequence: the counter's count at that moment modulo 2 (its low-order bit),
  with the current time in verbose mode and bare otherwise.
\<close>

theorem sampler_records_low_bit:
  assumes "pipes (beat_bc_pipe t) = s # ss" and "items s = True # rest"
    and "\<not> old_i_clk (trng_rand_out t)"
  shows "rand_data (trng_rand_out (trng_rand_out_step t)) =
           rand_data (trng_rand_out t) @
             [if rand_verbose (trng_rand_out t)
              then Stamped (env_now t) (count (trng_counter t) mod 2)
              else Bare (count (trng_counter t) mod 2)]"
  using assms
  by (simp add: trng_rand_out_step_def store_get_def rand_out_step_def counter_state_def
      split: prod.splits)

theorem sampler_records_low_bit_witness:
  "rand_data (trng_rand_out (trng_rand_out_step sampling_example)) = [Bare 0]"
  using sampler_records_low_bit [of sampling_example
      "\<lparr>store_capacity = \<infinity>, items = [True], put_queue = []\<rparr>" "[]" "[]"]
  by simp

subsection \<open>The statistic\<close>

lemma sum_list_sq_dev:
  fixes xs :: "real list"
  shows "sum_list (map (\<lambda>x. (x - m) ^ 2) xs) =
           sum_list (map (\<lambda>x. x ^ 2) xs) - 2 * m * sum_list xs + real (length xs) * m ^ 2"
  by (induction xs) (simp_all add: power2_eq_square algebra_simps)

lemma np_std_variance:
  assumes "a \<noteq> []"
  shows "np_std a = Some (sqrt (variance (map real_of_int a)))"
proof -
  let ?xs = "map real_of_int a"
  let ?n = "real (length ?xs)"
  let ?S = "sum_list ?xs"
  let ?Q = "sum_list (map (\<lambda>x. x ^ 2) ?xs)"
  have n: "?n \<noteq> 0" using assms by simp
  have "sum_list (map (\<lambda>x. \<bar>x - ?S / ?n\<bar> ^ 2) ?xs) = sum_list (map (\<lambda>x. (x - ?S / ?n) ^ 2) ?xs)"
    by simp
  also have "\<dots> = ?Q - 2 * (?S / ?n) * ?S + ?n * (?S / ?n) ^ 2"
    by (rule sum_list_sq_dev)
  also have "\<dots> = ?Q - ?S ^ 2 / ?n"
    using n by (simp add: power2_eq_square field_simps)
  finally have "sum_list (map (\<lambda>x. \<bar>x - ?S / ?n\<bar> ^ 2) ?xs) / ?n = ?Q / ?n - (?S / ?n) ^ 2"
    using n by (simp add: power2_eq_square field_simps)
  then have "np_mean (map (\<lambda>x. \<bar>x - np_mean ?xs\<bar> ^ 2) ?xs) = variance ?xs"
    by (simp add: np_mean_def variance_def)
  then show ?thesis
    using assms by (simp add: np_std_def Let_def)
qed

text \<open>
  Claim C2. With at least two reset records (so that the records without the first are
  not empty) and period and delta of the same sign, \<^verbatim>\<open>sigma\<close> is the standard deviation
  of \<open>count_max\<close> without its first entry, multiplied by delta and divided by the square
  root of \<open>2 * period / delta\<close>. The arithmetic is that of the reals.
\<close>

theorem sigma_formula:
  assumes "2 \<le> length (count_max (trng_counter t))"
    and "0 < trng_period t / delta t"
  shows "sigma t = Inr (Some (spec_sigma (trng_period t) (delta t) (count_max (trng_counter t))))"
proof -
  have ne: "drop 1 (count_max (trng_counter t)) \<noteq> []"
    using assms(1) by simp
  have d: "delta t \<noteq> 0"
    using assms(2) by auto
  have tl: "drop (Suc 0) (count_max (trng_counter t)) = tl (count_max (trng_counter t))"
    by (simp add: drop_Suc)
  show ?thesis
    using assms(2) d np_std_variance [OF ne]
    by (simp add: sigma_def spec_sigma_def Let_def tl)
qed

theorem sigma_formula_witness:
  "sigma sampling_example = Inr (Some (1 / 2))"
  using sigma_formula [of sampling_example]
  by (simp add: spec_sigma_def variance_def)

end
